theory Spec2Isabelle
  imports Complex_Main
begin

section \<open>Python values\<close>

text \<open>
  The exceptions the modelled functions can raise.  A function that may raise returns
  \<open>py_error + 'a\<close>, with \<open>Inl\<close> for the exception.
\<close>

datatype py_error = IndexError | KeyError | TypeError | ZeroDivisionError

text \<open>
  A float of the measurement table: a number or the null marker (pandas stores a missing
  numeric cell as NaN).  Numbers are modelled as exact reals: rounding, overflow and
  underflow of IEEE doubles are outside the model.
\<close>

datatype pyfloat = Num real | NaN

section \<open>Degree-minute coordinates: \<open>degmin_to_decdeg\<close>\<close>

text \<open>
  Texts are strings of 8-bit characters read as code points below 256.  In that range
  the regular expression class \<open>\s\<close> of a Python \<open>str\<close> pattern holds the code points
  9 to 13, 28 to 32, 133 and 160, and \<open>\d\<close> holds the ASCII digits.
\<close>

definition isspace :: "char \<Rightarrow> bool" where
  "isspace c = (let n = (of_char c :: nat) in
     (9 \<le> n \<and> n \<le> 13) \<or> (28 \<le> n \<and> n \<le> 32) \<or> n = 133 \<or> n = 160)"

definition isdigit :: "char \<Rightarrow> bool" where
  "isdigit c = (let n = (of_char c :: nat) in 48 \<le> n \<and> n \<le> 57)"

text \<open>\<open>float(s)\<close> for a text of two digits, as the groups of the pattern are.\<close>

definition digit_val :: "char \<Rightarrow> nat" where
  "digit_val c = of_char c - 48"

definition float2 :: "string \<Rightarrow> real" where
  "float2 s = real (foldl (\<lambda>acc c. 10 * acc + digit_val c) 0 s)"

text \<open>
  One attempt of the pattern \<open>\s*(\d{2})\s*(\d{2})\s*.?\s*\<close> at the head of a text: the
  two groups and the text left after the match, or \<open>None\<close>.  The classes \<open>\s\<close> and \<open>\d\<close>
  are disjoint, so the greedy run of \<open>\s*\<close> is the only one that can be followed by a
  digit; everything after the second group is optional and is matched greedily:
  the blanks, one more character unless it is a newline, and the blanks after it.
\<close>

definition match_at :: "string \<Rightarrow> ((string \<times> string) \<times> string) option" where
  "match_at s =
     (case dropWhile isspace s of
        d1 # d2 # r \<Rightarrow>
          if isdigit d1 \<and> isdigit d2 then
            (case dropWhile isspace r of
               d3 # d4 # r' \<Rightarrow>
                 if isdigit d3 \<and> isdigit d4 then
                   (let t = dropWhile isspace r';
                        u = (case t of [] \<Rightarrow> []
                             | c # t' \<Rightarrow> if c \<noteq> CHR 0x0A then t' else t)
                    in Some (([d1, d2], [d3, d4]), dropWhile isspace u))
                 else None
             | _ \<Rightarrow> None)
          else None
      | _ \<Rightarrow> None)"

lemma match_at_shorter:
  assumes "match_at s = Some (g, rest)"
  shows "length rest < length s"
proof -
  have dw: "length (dropWhile isspace xs) \<le> length xs" for xs
    by (rule length_dropWhile_le)
  obtain d1 d2 r where s1: "dropWhile isspace s = d1 # d2 # r"
    using assms unfolding match_at_def by (auto split: list.splits if_splits)
  obtain d3 d4 r' where s2: "dropWhile isspace r = d3 # d4 # r'"
    using assms s1 unfolding match_at_def by (auto split: list.splits if_splits)
  define t where "t = dropWhile isspace r'"
  define u where "u = (case t of [] \<Rightarrow> [] | c # t' \<Rightarrow> if c \<noteq> CHR 0x0A then t' else t)"
  have rest: "rest = dropWhile isspace u"
    using assms unfolding match_at_def t_def u_def
    by (simp add: s1 s2 Let_def split: if_splits)
  have "length u \<le> length t"
    unfolding u_def by (cases t) auto
  moreover have "length t \<le> length r'"
    unfolding t_def by (rule dw)
  moreover have "length r' < length r"
    using dw [of r] s2 by simp
  moreover have "length r < length s"
    using dw [of s] s1 by simp
  moreover have "length rest \<le> length u"
    unfolding rest by (rule dw)
  ultimately show ?thesis by linarith
qed

text \<open>
  \<open>re.findall\<close>: scan from the left; where the pattern matches, keep the groups and go on
  after the match (a match holds four digits, so it is never empty); elsewhere move one
  character on.
\<close>

function findall :: "string \<Rightarrow> (string \<times> string) list" where
  "findall [] = []"
| "findall (c # cs) =
     (case match_at (c # cs) of
        Some (g, rest) \<Rightarrow> g # findall rest
      | None \<Rightarrow> findall cs)"
  by pat_completeness auto
termination
  by (relation "measure length") (auto dest: match_at_shorter)

definition degmin_to_decdeg :: "string \<Rightarrow> real list" where
  "degmin_to_decdeg string =
     (let parsed = findall string
      in map (\<lambda>g. float2 (fst g) + float2 (snd g) / 60) parsed)"

subsection \<open>Well-formed coordinate texts, in the words of the specification\<close>

text \<open>
  A fragment is one degree-minute pair as a catalog cell writes it: blanks, two digits of
  degrees, blanks, two digits of minutes, blanks, one closing character that is not a
  blank (a hemisphere letter, a comma), and blanks.
\<close>

definition blank :: "string \<Rightarrow> bool" where
  "blank w = list_all isspace w"

definition two_digits :: "string \<Rightarrow> bool" where
  "two_digits s = (length s = 2 \<and> list_all isdigit s)"

record fragment =
  lead :: string
  deg :: string
  gap :: string
  mins :: string
  trail :: string
  mark :: char
  after :: string

definition render :: "fragment \<Rightarrow> string" where
  "render f = lead f @ deg f @ gap f @ mins f @ trail f @ [mark f] @ after f"

definition well_formed :: "fragment \<Rightarrow> bool" where
  "well_formed f = (blank (lead f) \<and> two_digits (deg f) \<and> blank (gap f) \<and>
     two_digits (mins f) \<and> blank (trail f) \<and> \<not> isspace (mark f) \<and> blank (after f))"

definition decdeg :: "fragment \<Rightarrow> real" where
  "decdeg f = float2 (deg f) + float2 (mins f) / 60"

subsection \<open>Properties of the scan\<close>

lemma digit_not_space: "isdigit c \<Longrightarrow> \<not> isspace c"
  by (auto simp: isdigit_def isspace_def Let_def)

lemma newline_space: "isspace (CHR 0x0A)"
  by (simp add: isspace_def)

lemma dropWhile_blank: "blank w \<Longrightarrow> dropWhile isspace (w @ s) = dropWhile isspace s"
  by (simp add: blank_def list_all_iff dropWhile_append2)

lemma two_digitsE:
  assumes "two_digits d"
  obtains a b where "d = [a, b]" "isdigit a" "isdigit b"
proof -
  from assms obtain a b where "d = [a, b]"
    unfolding two_digits_def by (cases d; cases "tl d") auto
  with assms that show ?thesis by (auto simp: two_digits_def)
qed

lemma match_at_dropWhile: "match_at (dropWhile isspace s) = match_at s"
  by (simp add: match_at_def)

lemma match_at_blank: "blank w \<Longrightarrow> match_at (w @ s) = match_at s"
  by (simp add: match_at_def dropWhile_blank)

lemma match_at_pair_end:
  assumes "blank w1" "two_digits d" "blank w2" "two_digits m" "blank w3"
  shows "match_at (w1 @ d @ w2 @ m @ w3) = Some ((d, m), [])"
proof -
  from assms(2) obtain a b where d: "d = [a, b]" "isdigit a" "isdigit b" by (rule two_digitsE)
  from assms(4) obtain a' b' where m: "m = [a', b']" "isdigit a'" "isdigit b'" by (rule two_digitsE)
  have w3: "dropWhile isspace w3 = []"
    using assms(5) by (simp add: blank_def list_all_iff)
  show ?thesis
    using d m assms(1,3)
    by (simp add: match_at_def dropWhile_blank digit_not_space w3)
qed

lemma match_at_pair_mark:
  assumes "blank w1" "two_digits d" "blank w2" "two_digits m" "blank w3" "\<not> isspace c"
  shows "match_at (w1 @ d @ w2 @ m @ w3 @ c # rest) = Some ((d, m), dropWhile isspace rest)"
proof -
  from assms(2) obtain a b where d: "d = [a, b]" "isdigit a" "isdigit b" by (rule two_digitsE)
  from assms(4) obtain a' b' where m: "m = [a', b']" "isdigit a'" "isdigit b'" by (rule two_digitsE)
  have c: "c \<noteq> CHR 0x0A" using assms(6) newline_space by auto
  show ?thesis
    using d m assms(1,3,5,6) c
    by (simp add: match_at_def dropWhile_blank digit_not_space)
qed

lemma findall_nonempty:
  "s \<noteq> [] \<Longrightarrow> findall s = (case match_at s of Some (g, rest) \<Rightarrow> g # findall rest | None \<Rightarrow> findall (tl s))"
  by (cases s) (auto split: option.splits)

lemma match_at_Nil: "match_at [] = None"
  by (simp add: match_at_def)

lemma findall_space:
  assumes "isspace c"
  shows "findall (c # cs) = findall cs"
proof (cases "match_at cs")
  case None
  moreover have "match_at (c # cs) = match_at cs"
    using assms by (simp add: match_at_def)
  ultimately show ?thesis by simp
next
  case (Some p)
  have m: "match_at (c # cs) = match_at cs"
    using assms by (simp add: match_at_def)
  have "cs \<noteq> []" using Some match_at_Nil by auto
  then show ?thesis
    using findall_nonempty [of cs] Some m by simp
qed

lemma findall_dropWhile: "findall (dropWhile isspace s) = findall s"
  by (induction s) (simp_all add: findall_space del: findall.simps(2))

lemma findall_render:
  assumes "well_formed f"
  shows "findall (render f @ rest) = (deg f, mins f) # findall rest"
proof -
  have ne: "render f @ rest \<noteq> []" by (simp add: render_def)
  have "match_at (render f @ rest) = Some ((deg f, mins f), dropWhile isspace (after f @ rest))"
    using assms match_at_pair_mark [of "lead f" "deg f" "gap f" "mins f" "trail f" "mark f" "after f @ rest"]
    by (simp add: well_formed_def render_def)
  moreover have "dropWhile isspace (after f @ rest) = dropWhile isspace rest"
    using assms by (simp add: well_formed_def dropWhile_blank)
  ultimately show ?thesis
    using findall_nonempty [OF ne] by (simp add: findall_dropWhile)
qed

lemma findall_fragments:
  "list_all well_formed fs \<Longrightarrow>
   findall (concat (map render fs) @ rest) = map (\<lambda>f. (deg f, mins f)) fs @ findall rest"
  by (induction fs) (simp_all add: findall_render)

lemma findall_no_match:
  "(\<And>i. i < length s \<Longrightarrow> match_at (drop i s) = None) \<Longrightarrow> findall s = []"
proof (induction s)
  case Nil
  show ?case by simp
next
  case (Cons c cs)
  have "match_at (c # cs) = None" using Cons.prems [of 0] by simp
  moreover have "findall cs = []"
  proof (rule Cons.IH)
    fix i assume "i < length cs"
    then show "match_at (drop i cs) = None" using Cons.prems [of "Suc i"] by simp
  qed
  ultimately show ?case by simp
qed

text \<open>
  Claim C2, as the code has it.  A pair whose two 2-digit groups are separated by blanks
  only (or by nothing), with nothing but blanks after it, yields the single value
  degrees + minutes/60.  A text made of k well-formed fragments, each closed by one
  character that is not a blank, yields their k values in the order of the text, followed
  by the values of whatever text comes after them.  A text in which the pattern matches at
  no position yields the empty list.  The function returns a list in every case: it
  raises no exception on a text.
\<close>

theorem degmin_to_decdeg_pairs:
  "(blank w1 \<and> two_digits d \<and> blank w2 \<and> two_digits m \<and> blank w3 \<longrightarrow>
      degmin_to_decdeg (w1 @ d @ w2 @ m @ w3) = [float2 d + float2 m / 60]) \<and>
   (list_all well_formed fs \<longrightarrow>
      degmin_to_decdeg (concat (map render fs) @ rest) = map decdeg fs @ degmin_to_decdeg rest) \<and>
   ((\<forall>i < length s. match_at (drop i s) = None) \<longrightarrow> degmin_to_decdeg s = [])"
proof (intro conjI impI)
  assume a: "blank w1 \<and> two_digits d \<and> blank w2 \<and> two_digits m \<and> blank w3"
  then have ne: "w1 @ d @ w2 @ m @ w3 \<noteq> []" by (auto simp: two_digits_def)
  have "match_at (w1 @ d @ w2 @ m @ w3) = Some ((d, m), [])"
    using a by (simp add: match_at_pair_end)
  then have "findall (w1 @ d @ w2 @ m @ w3) = [(d, m)]"
    using findall_nonempty [OF ne] by simp
  then show "degmin_to_decdeg (w1 @ d @ w2 @ m @ w3) = [float2 d + float2 m / 60]"
    by (simp add: degmin_to_decdeg_def)
next
  assume "list_all well_formed fs"
  then show "degmin_to_decdeg (concat (map render fs) @ rest) = map decdeg fs @ degmin_to_decdeg rest"
    by (simp add: degmin_to_decdeg_def findall_fragments decdeg_def comp_def)
next
  assume "\<forall>i < length s. match_at (drop i s) = None"
  then have "findall s = []" by (intro findall_no_match) simp
  then show "degmin_to_decdeg s = []" by (simp add: degmin_to_decdeg_def)
qed


text \<open>The text \<open>52 10 N 04 30 E\<close>, as two fragments.\<close>

definition ex_fragments :: "fragment list" where
  "ex_fragments =
     [\<lparr>lead = [], deg = ''52'', gap = '' '', mins = ''10'', trail = '' '', mark = CHR ''N'', after = '' ''\<rparr>,
      \<lparr>lead = [], deg = ''04'', gap = '' '', mins = ''30'', trail = '' '', mark = CHR ''E'', after = []\<rparr>]"

theorem degmin_to_decdeg_pairs_witness:
  "degmin_to_decdeg ''52 10'' = [52 + 10 / 60] \<and>
   degmin_to_decdeg ''52 10 N 04 30 E'' = [52 + 10 / 60, 4 + 30 / 60] \<and>
   degmin_to_decdeg ''N 52'' = []"
proof -
  have h1: "blank [] \<and> two_digits ''52'' \<and> blank '' '' \<and> two_digits ''10'' \<and> blank []"
    by (simp add: blank_def two_digits_def isspace_def isdigit_def)
  have h2: "list_all well_formed ex_fragments"
    by (simp add: ex_fragments_def well_formed_def blank_def two_digits_def isspace_def isdigit_def)
  have h3: "\<forall>i < length ''N 52''. match_at (drop i ''N 52'') = None"
    by (simp add: less_Suc_eq match_at_def isspace_def isdigit_def)
  have v: "float2 ''52'' = 52" "float2 ''10'' = 10" "float2 ''04'' = 4" "float2 ''30'' = 30"
    by (simp_all add: float2_def digit_val_def)
  have "degmin_to_decdeg ([] @ ''52'' @ '' '' @ ''10'' @ []) = [float2 ''52'' + float2 ''10'' / 60]"
    using degmin_to_decdeg_pairs [of "[]" "''52''" "'' ''" "''10''" "[]"] h1 by blast
  moreover have "degmin_to_decdeg (concat (map render ex_fragments) @ []) =
      map decdeg ex_fragments @ degmin_to_decdeg []"
    using degmin_to_decdeg_pairs [of _ _ _ _ _ ex_fragments "[]"] h2 by blast
  moreover have "degmin_to_decdeg ''N 52'' = []"
    using degmin_to_decdeg_pairs [of _ _ _ _ _ _ _ "''N 52''"] h3 by blast
  moreover have "degmin_to_decdeg [] = []"
    by (simp add: degmin_to_decdeg_def)
  ultimately show ?thesis
    by (simp add: v ex_fragments_def render_def decdeg_def)
qed

text \<open>
  Claim C2 as stated fails twice.  Groups separated by punctuation are not a match: the
  pattern allows only blanks between them.  And of two pairs separated by blanks only,
  the second is lost: the optional \<open>.\<close> after the first pair takes its first digit.
\<close>

theorem degmin_to_decdeg_counterexample:
  "degmin_to_decdeg ''52:10'' = [] \<and> degmin_to_decdeg ''52 10 04 30'' = [52 + 10 / 60]"
  by (simp add: degmin_to_decdeg_def match_at_def isspace_def isdigit_def float2_def digit_val_def)

section \<open>The station catalog: \<open>coordtable\<close>\<close>

text \<open>
  Fetching the page and parsing its HTML are outside the model: \<open>coordtable\<close> takes the
  rows of the table, each the list of the texts of its cells.  \<open>str.strip\<close> removes the
  blanks at both ends of a text; its blanks are those of \<open>\s\<close>.
\<close>

definition strip :: "string \<Rightarrow> string" where
  "strip s = rev (dropWhile isspace (rev (dropWhile isspace s)))"

text \<open>A cell of the frame: the stripped text, or \<open>None\<close> when nothing is left.\<close>

definition cell_text :: "string \<Rightarrow> string option" where
  "cell_text t = (let strip = strip t in if strip = [] then None else Some strip)"

record station =
  sid :: "string option"
  name :: "string option"
  type :: "string option"
  lat :: real
  lon :: real
  elevation :: "string option"

text \<open>
  \<open>degmin_to_decdeg(cell)[0]\<close>: \<open>re.findall\<close> raises \<open>TypeError\<close> on a cell that is not a
  text, and indexing an empty list raises \<open>IndexError\<close>.
\<close>

definition first_decdeg :: "string option \<Rightarrow> py_error + real" where
  "first_decdeg cell =
     (case cell of
        None \<Rightarrow> Inl TypeError
      | Some s \<Rightarrow> (case degmin_to_decdeg s of [] \<Rightarrow> Inl IndexError | v # _ \<Rightarrow> Inr v))"

text \<open>
  The conversion loop over the data rows, latitude before longitude, row after row; the
  first exception ends it.  Every row of the frame has six cells.
\<close>

fun convert_rows :: "string option list list \<Rightarrow> py_error + station list" where
  "convert_rows [] = Inr []"
| "convert_rows (r # rs) =
     (case first_decdeg (r ! 3) of
        Inl e \<Rightarrow> Inl e
      | Inr la \<Rightarrow>
          (case first_decdeg (r ! 4) of
             Inl e \<Rightarrow> Inl e
           | Inr lo \<Rightarrow>
               (case convert_rows rs of
                  Inl e \<Rightarrow> Inl e
                | Inr ss \<Rightarrow>
                    Inr (\<lparr>sid = r ! 0, name = r ! 1, type = r ! 2, lat = la, lon = lo,
                          elevation = r ! 5\<rparr> # ss))))"

text \<open>
  The frame holds the rows of exactly six cells; \<open>frame.drop(0)\<close> removes the first of them,
  the row of the column names, and raises \<open>KeyError\<close> when the frame is empty.
\<close>

definition frame_rows :: "string list list \<Rightarrow> string option list list" where
  "frame_rows rows = map (map cell_text) (filter (\<lambda>cells. length cells = 6) rows)"

definition coordtable :: "string list list \<Rightarrow> py_error + station list" where
  "coordtable rows =
     (case frame_rows rows of
        [] \<Rightarrow> Inl KeyError
      | header # data \<Rightarrow> convert_rows data)"

text \<open>The range two 2-digit groups can give.\<close>

definition in_range :: "station \<Rightarrow> bool" where
  "in_range s = (0 \<le> lat s \<and> lat s \<le> 99 + 99 / 60 \<and> 0 \<le> lon s \<and> lon s \<le> 99 + 99 / 60)"

subsection \<open>Properties of the catalog build\<close>

lemma convert_rows_error:
  "convert_rows data = Inl e \<Longrightarrow> e = IndexError \<or> e = TypeError"
proof (induction data)
  case Nil
  then show ?case by simp
next
  case (Cons r rs)
  have fd: "first_decdeg c = Inl e' \<Longrightarrow> e' = IndexError \<or> e' = TypeError" for c e'
    by (auto simp: first_decdeg_def split: option.splits list.splits)
  from Cons show ?case
    by (auto split: sum.splits dest: fd)
qed

lemma convert_rows_unparsed:
  assumes "r \<in> set data"
      and "(\<exists>e. first_decdeg (r ! 3) = Inl e) \<or> (\<exists>e. first_decdeg (r ! 4) = Inl e)"
  shows "\<exists>e. convert_rows data = Inl e"
  using assms
proof (induction data)
  case Nil
  then show ?case by simp
next
  case (Cons q qs)
  show ?case
  proof (cases "r = q")
    case True
    with Cons.prems(2) show ?thesis by (auto split: sum.splits)
  next
    case False
    with Cons.prems have "r \<in> set qs" by simp
    from Cons.IH [OF this Cons.prems(2)] show ?thesis by (auto split: sum.splits)
  qed
qed

lemma first_decdeg_unparsed:
  "cell = Some s \<Longrightarrow> degmin_to_decdeg s = [] \<Longrightarrow> first_decdeg cell = Inl IndexError"
  by (simp add: first_decdeg_def)

text \<open>
  Claim C8, as the code has it.  The build has no warning and drops no row: when any
  data row of the catalog has a latitude or longitude text in which the pattern matches
  nowhere, indexing the empty parse result raises, and the whole build ends in that
  exception (\<open>IndexError\<close>, or the \<open>TypeError\<close> of an earlier empty cell) and returns no catalog.
\<close>

theorem coordtable_unparsed_coordinate_raises:
  assumes "frame_rows rows = header # data"
      and "r \<in> set data"
      and "(\<exists>s. r ! 3 = Some s \<and> degmin_to_decdeg s = []) \<or>
           (\<exists>s. r ! 4 = Some s \<and> degmin_to_decdeg s = [])"
  shows "coordtable rows = Inl IndexError \<or> coordtable rows = Inl TypeError"
proof -
  have "(\<exists>e. first_decdeg (r ! 3) = Inl e) \<or> (\<exists>e. first_decdeg (r ! 4) = Inl e)"
    using assms(3) by (auto dest: first_decdeg_unparsed)
  then obtain e where e: "convert_rows data = Inl e"
    using convert_rows_unparsed [OF assms(2)] by blast
  then have "e = IndexError \<or> e = TypeError" by (rule convert_rows_error)
  moreover have "coordtable rows = Inl e"
    using e assms(1) by (simp add: coordtable_def)
  ultimately show ?thesis by auto
qed

lemma isdigit_val: "isdigit c \<Longrightarrow> digit_val c \<le> 9"
  by (auto simp: isdigit_def digit_val_def Let_def)

lemma float2_two_digits:
  assumes "two_digits d"
  shows "0 \<le> float2 d \<and> float2 d \<le> 99"
proof -
  from assms obtain a b where d: "d = [a, b]" "isdigit a" "isdigit b" by (rule two_digitsE)
  have "10 * digit_val a + digit_val b \<le> 99"
    using isdigit_val [OF d(2)] isdigit_val [OF d(3)] by linarith
  then have "real (10 * digit_val a + digit_val b) \<le> 99"
    by (metis of_nat_le_iff of_nat_numeral)
  then show ?thesis by (simp add: float2_def d(1))
qed

lemma match_at_groups:
  assumes "match_at s = Some (g, rest)"
  shows "two_digits (fst g) \<and> two_digits (snd g)"
  using assms unfolding match_at_def
  by (auto split: list.splits if_splits simp: Let_def two_digits_def)

lemma findall_groups:
  "g \<in> set (findall s) \<Longrightarrow> two_digits (fst g) \<and> two_digits (snd g)"
proof (induction s rule: findall.induct)
  case 1
  then show ?case by simp
next
  case (2 c cs)
  show ?case
  proof (cases "match_at (c # cs)")
    case None
    with 2 show ?thesis by simp
  next
    case (Some p)
    obtain h rest where p: "p = (h, rest)" by (cases p)
    from Some p have m: "match_at (c # cs) = Some (h, rest)" by simp
    from 2(3) m have "g = h \<or> g \<in> set (findall rest)" by simp
    then show ?thesis
    proof
      assume "g = h"
      then show ?thesis using match_at_groups [OF m] by simp
    next
      assume "g \<in> set (findall rest)"
      then show ?thesis by (rule 2(2) [OF m refl])
    qed
  qed
qed

lemma degmin_to_decdeg_range:
  assumes "v \<in> set (degmin_to_decdeg s)"
  shows "0 \<le> v \<and> v \<le> 99 + 99 / 60"
proof -
  from assms obtain g where g: "g \<in> set (findall s)" "v = float2 (fst g) + float2 (snd g) / 60"
    by (auto simp: degmin_to_decdeg_def)
  have "0 \<le> float2 (fst g) \<and> float2 (fst g) \<le> 99" "0 \<le> float2 (snd g) \<and> float2 (snd g) \<le> 99"
    using findall_groups [OF g(1)] float2_two_digits by blast+
  then show ?thesis unfolding g(2) by simp
qed

lemma first_decdeg_range:
  assumes "first_decdeg cell = Inr v"
  shows "0 \<le> v \<and> v \<le> 99 + 99 / 60"
proof -
  from assms obtain s vs where "degmin_to_decdeg s = v # vs"
    by (auto simp: first_decdeg_def split: option.splits list.splits)
  then have "v \<in> set (degmin_to_decdeg s)" by simp
  then show ?thesis by (rule degmin_to_decdeg_range)
qed

lemma convert_rows_catalog:
  "convert_rows data = Inr cat \<Longrightarrow>
     list_all in_range cat \<and> map sid cat = map (\<lambda>r. r ! 0) data"
proof (induction data arbitrary: cat)
  case Nil
  then show ?case by simp
next
  case (Cons r rs)
  from Cons.prems obtain la lo ss where
    parts: "first_decdeg (r ! 3) = Inr la" "first_decdeg (r ! 4) = Inr lo" "convert_rows rs = Inr ss"
    and cat: "cat = \<lparr>sid = r ! 0, name = r ! 1, type = r ! 2, lat = la, lon = lo, elevation = r ! 5\<rparr> # ss"
    by (auto split: sum.splits)
  have "list_all in_range ss \<and> map sid ss = map (\<lambda>r. r ! 0) rs"
    using Cons.IH [OF parts(3)] .
  moreover have "in_range \<lparr>sid = r ! 0, name = r ! 1, type = r ! 2, lat = la, lon = lo, elevation = r ! 5\<rparr>"
    using first_decdeg_range [OF parts(1)] first_decdeg_range [OF parts(2)]
    by (simp add: in_range_def)
  ultimately show ?case by (simp add: cat)
qed

text \<open>
  Claim C9, as the code has it.  Every station of a catalog the build returns has its
  latitude and its longitude between 0 and 99 + 99/60 = 100.65, the values two 2-digit
  groups can give; so the longitude is always within [-180, 180] and the latitude is never
  below -90, but nothing keeps the latitude at or below 90.  The station ids are the first
  cells of the data rows, copied in order: they are unique only if the rows' are.
\<close>

theorem coordtable_catalog_ranges:
  assumes "coordtable rows = Inr cat"
  shows "(\<forall>s \<in> set cat. 0 \<le> lat s \<and> lat s \<le> 99 + 99 / 60 \<and> 0 \<le> lon s \<and> lon s \<le> 99 + 99 / 60 \<and>
            - 90 \<le> lat s \<and> - 180 \<le> lon s \<and> lon s \<le> 180) \<and>
         map sid cat = map (\<lambda>r. r ! 0) (tl (frame_rows rows))"
proof -
  from assms obtain header data where fr: "frame_rows rows = header # data"
    and cv: "convert_rows data = Inr cat"
    by (auto simp: coordtable_def split: list.splits)
  have "list_all in_range cat" "map sid cat = map (\<lambda>r. r ! 0) data"
    using convert_rows_catalog [OF cv] by simp_all
  then show ?thesis
    by (auto simp: fr list_all_iff in_range_def)
qed

subsection \<open>Example catalogs\<close>

definition ex_rows :: "string list list" where
  "ex_rows =
     [[''STN'', ''NAAM'', ''TYPE'', ''LAT'', ''LON'', ''HOOGTE''],
      [''Stationslijst''],
      [''260'', '' De Bilt '', ''AWS'', ''52 06 N'', ''05 11 E'', ''2''],
      [''235'', ''De Kooy'', ''AWS'', ''52 55 N'', ''04 47 E'', '' '']]"

definition ex_catalog :: "station list" where
  "ex_catalog =
     [\<lparr>sid = Some ''260'', name = Some ''De Bilt'', type = Some ''AWS'',
        lat = 52 + 6 / 60, lon = 5 + 11 / 60, elevation = Some ''2''\<rparr>,
      \<lparr>sid = Some ''235'', name = Some ''De Kooy'', type = Some ''AWS'',
        lat = 52 + 55 / 60, lon = 4 + 47 / 60, elevation = None\<rparr>]"

definition ex_bad_rows :: "string list list" where
  "ex_bad_rows =
     [[''STN'', ''NAAM'', ''TYPE'', ''LAT'', ''LON'', ''HOOGTE''],
      [''260'', ''De Bilt'', ''AWS'', ''52 06 N'', ''05 11 E'', ''2''],
      [''235'', ''De Kooy'', ''AWS'', ''52:55 N'', ''04 47 E'', ''1'']]"

definition ex_odd_rows :: "string list list" where
  "ex_odd_rows =
     [[''STN'', ''NAAM'', ''TYPE'', ''LAT'', ''LON'', ''HOOGTE''],
      [''260'', ''De Bilt'', ''AWS'', ''95 00 N'', ''05 11 E'', ''2''],
      [''260'', ''De Kooy'', ''AWS'', ''52 55 N'', ''04 47 E'', ''1'']]"

lemmas eval_defs = coordtable_def frame_rows_def cell_text_def strip_def first_decdeg_def
      degmin_to_decdeg_def match_at_def isspace_def isdigit_def float2_def digit_val_def

theorem coordtable_unparsed_coordinate_raises_witness:
  "frame_rows ex_bad_rows =
     [[Some ''STN'', Some ''NAAM'', Some ''TYPE'', Some ''LAT'', Some ''LON'', Some ''HOOGTE''],
      [Some ''260'', Some ''De Bilt'', Some ''AWS'', Some ''52 06 N'', Some ''05 11 E'', Some ''2''],
      [Some ''235'', Some ''De Kooy'', Some ''AWS'', Some ''52:55 N'', Some ''04 47 E'', Some ''1'']] \<and>
   degmin_to_decdeg ''52:55 N'' = [] \<and>
   (coordtable ex_bad_rows = Inl IndexError \<or> coordtable ex_bad_rows = Inl TypeError)"
proof -
  let ?r = "[Some ''235'', Some ''De Kooy'', Some ''AWS'', Some ''52:55 N'', Some ''04 47 E'', Some ''1'']"
  let ?data = "[[Some ''260'', Some ''De Bilt'', Some ''AWS'', Some ''52 06 N'', Some ''05 11 E'', Some ''2''], ?r]"
  let ?header = "[Some ''STN'', Some ''NAAM'', Some ''TYPE'', Some ''LAT'', Some ''LON'', Some ''HOOGTE'']"
  have fr: "frame_rows ex_bad_rows = ?header # ?data"
    by (simp add: ex_bad_rows_def frame_rows_def cell_text_def strip_def isspace_def)
  have mem: "?r \<in> set ?data" by simp
  have parse: "degmin_to_decdeg ''52:55 N'' = []"
    by (simp add: degmin_to_decdeg_def match_at_def isspace_def isdigit_def)
  have bad: "(\<exists>s. ?r ! 3 = Some s \<and> degmin_to_decdeg s = []) \<or>
             (\<exists>s. ?r ! 4 = Some s \<and> degmin_to_decdeg s = [])"
    using parse by simp
  show ?thesis
    using coordtable_unparsed_coordinate_raises [OF fr mem bad] fr parse by simp
qed

text \<open>
  Claim C8 as stated fails: with one row whose latitude text is \<open>52:55 N\<close>, the build
  returns no catalog at all, where the claim has it return the catalog without that row.
\<close>

theorem coordtable_unparsed_coordinate_counterexample:
  "coordtable ex_bad_rows = Inl IndexError"
  by (simp add: ex_bad_rows_def eval_defs)

theorem coordtable_catalog_ranges_witness:
  "coordtable ex_rows = Inr ex_catalog \<and>
   0 \<le> lat (ex_catalog ! 1) \<and> lat (ex_catalog ! 1) \<le> 99 + 99 / 60 \<and>
   0 \<le> lon (ex_catalog ! 1) \<and> lon (ex_catalog ! 1) \<le> 180 \<and>
   map sid ex_catalog = [Some ''260'', Some ''235'']"
proof -
  have c: "coordtable ex_rows = Inr ex_catalog"
    by (simp add: ex_rows_def ex_catalog_def eval_defs)
  have m: "ex_catalog ! 1 \<in> set ex_catalog"
    by (simp add: ex_catalog_def)
  have f: "map (\<lambda>r. r ! 0) (tl (frame_rows ex_rows)) = [Some ''260'', Some ''235'']"
    by (simp add: ex_rows_def frame_rows_def cell_text_def strip_def isspace_def)
  from coordtable_catalog_ranges [OF c] m f c show ?thesis by auto
qed

text \<open>
  Claim C9 as stated fails: a row with the latitude text \<open>95 00 N\<close> gives a station at
  latitude 95, and two rows with the same id give two stations with that id.
\<close>

theorem coordtable_catalog_ranges_counterexample:
  "coordtable ex_odd_rows =
     Inr [\<lparr>sid = Some ''260'', name = Some ''De Bilt'', type = Some ''AWS'',
            lat = 95, lon = 5 + 11 / 60, elevation = Some ''2''\<rparr>,
          \<lparr>sid = Some ''260'', name = Some ''De Kooy'', type = Some ''AWS'',
            lat = 52 + 55 / 60, lon = 4 + 47 / 60, elevation = Some ''1''\<rparr>]"
  by (simp add: ex_odd_rows_def eval_defs)

section \<open>Matching measurement rows to catalog stations: the loop of \<open>table\<close>\<close>

text \<open>
  The dictionary of station name discrepancies, in the order of its items, and the loop that
  applies it to the name of a measurement row.  A name is \<open>None\<close> when the cell was empty.
\<close>

definition modify_names :: "(string \<times> string) list" where
  "modify_names = [(''Den Helder'', ''De Kooy''), (''Eelde'', ''Groningen'')]"

definition rename :: "string option \<Rightarrow> string option" where
  "rename name0 =
     foldl (\<lambda>name (old, new). if name = Some old then Some new else name) name0 modify_names"

text \<open>
  The similarity score is \<open>difflib.SequenceMatcher(None, a, b).ratio()\<close>, a function of
  Python's library: the matching loop takes it as the parameter \<open>score\<close>.  On a name that is
  not a text the call raises \<open>TypeError\<close>.
\<close>

definition similarity ::
  "(string \<Rightarrow> string \<Rightarrow> real) \<Rightarrow> string option \<Rightarrow> string option \<Rightarrow> py_error + real" where
  "similarity score a b =
     (case a of
        None \<Rightarrow> Inl TypeError
      | Some x \<Rightarrow> (case b of None \<Rightarrow> Inl TypeError | Some y \<Rightarrow> Inr (score x y)))"

text \<open>
  After \<open>frame.drop(0)\<close> the catalog's index holds the labels 1, 2, ... in row order;
  \<open>coords.loc[j]\<close> raises \<open>KeyError\<close> on any other label.
\<close>

definition index :: "station list \<Rightarrow> (int \<times> station) list" where
  "index coords = zip [1..int (length coords)] coords"

definition loc :: "station list \<Rightarrow> int \<Rightarrow> py_error + station" where
  "loc coords j =
     (if 1 \<le> j \<and> j \<le> int (length coords) then Inr (coords ! nat (j - 1)) else Inl KeyError)"

text \<open>The scan for the greatest score: the state is \<open>(maxsim, maxind)\<close>.\<close>

fun best_match ::
  "(string \<Rightarrow> string \<Rightarrow> real) \<Rightarrow> string option \<Rightarrow> (int \<times> station) list \<Rightarrow> real \<times> int
     \<Rightarrow> py_error + (real \<times> int)" where
  "best_match score nm [] (maxsim, maxind) = Inr (maxsim, maxind)"
| "best_match score nm ((j, st) # rest) (maxsim, maxind) =
     (case similarity score nm (name st) of
        Inl e \<Rightarrow> Inl e
      | Inr sim \<Rightarrow>
          if sim > maxsim then best_match score nm rest (sim, j)
          else best_match score nm rest (maxsim, maxind))"

text \<open>
  Lines 120 to 129: the scan starts from \<open>maxsim = 0\<close>, \<open>maxind = -1\<close>, and the row takes
  the station \<open>coords.loc[maxind]\<close> (with \<open>verbose\<close> off, as it is by default).
\<close>

definition best_station ::
  "(string \<Rightarrow> string \<Rightarrow> real) \<Rightarrow> station list \<Rightarrow> string option \<Rightarrow> py_error + station" where
  "best_station score coords nm =
     (case best_match score nm (index coords) (0, - 1) of
        Inl e \<Rightarrow> Inl e
      | Inr (maxsim, maxind) \<Rightarrow> loc coords maxind)"

text \<open>Lines 111 to 129 for one measurement row: rename, then match.\<close>

definition match_station ::
  "(string \<Rightarrow> string \<Rightarrow> real) \<Rightarrow> station list \<Rightarrow> string option \<Rightarrow> py_error + station" where
  "match_station score coords name0 = best_station score coords (rename name0)"

subsection \<open>The similarity score of the specification\<close>

text \<open>
  Modelled from the spec: the score of section 4.3, step 2, for which the source calls
  \<open>difflib.SequenceMatcher(None, a, b).ratio()\<close>, library code that is not in the repository:
  2 M / T, where M is the total length of the matching blocks found by taking the longest
  common substring and matching recursively to its left and to its right, and T is the
  combined length of both texts.  Of several longest common substrings the one that starts
  earliest in the first text is taken, and of those the one earliest in the second, as the
  library does; two empty texts score 1.  The library's heuristic for second texts of 200
  characters and more is not modelled.
\<close>

fun common_prefix :: "string \<Rightarrow> string \<Rightarrow> nat" where
  "common_prefix (x # xs) (y # ys) = (if x = y then Suc (common_prefix xs ys) else 0)"
| "common_prefix _ _ = 0"

definition better :: "string \<Rightarrow> string \<Rightarrow> nat \<times> nat \<times> nat \<Rightarrow> nat \<times> nat \<Rightarrow> nat \<times> nat \<times> nat" where
  "better a b best p =
     (let k = common_prefix (drop (fst p) a) (drop (snd p) b)
      in if k > snd (snd best) then (fst p, snd p, k) else best)"

definition find_longest_match :: "string \<Rightarrow> string \<Rightarrow> nat \<times> nat \<times> nat" where
  "find_longest_match a b =
     foldl (better a b) (0, 0, 0) (List.product [0..<length a] [0..<length b])"

lemma better_cases:
  "better a b best p = best \<or>
   (fst (better a b best p) = fst p \<and> fst (snd (better a b best p)) = snd p \<and>
    snd (snd (better a b best p)) > snd (snd best))"
  by (simp add: better_def Let_def)

lemma better_mono: "snd (snd best) \<le> snd (snd (better a b best p))"
  by (simp add: better_def Let_def)

lemma foldl_better_range:
  "foldl (better a b) best ps = best \<or>
   ((fst (foldl (better a b) best ps), fst (snd (foldl (better a b) best ps))) \<in> set ps \<and>
    snd (snd (foldl (better a b) best ps)) > snd (snd best))"
proof (induction ps arbitrary: best)
  case Nil
  show ?case by simp
next
  case (Cons p ps)
  let ?b = "better a b best p"
  let ?r = "foldl (better a b) ?b ps"
  from Cons.IH [of ?b] show ?case
  proof
    assume eq: "?r = ?b"
    from better_cases [of a b best p] show ?thesis
    proof
      assume "?b = best"
      with eq show ?thesis by simp
    next
      assume new: "fst ?b = fst p \<and> fst (snd ?b) = snd p \<and> snd (snd ?b) > snd (snd best)"
      then have "(fst ?b, fst (snd ?b)) = p" by simp
      with eq new show ?thesis by simp
    qed
  next
    assume later: "(fst ?r, fst (snd ?r)) \<in> set ps \<and> snd (snd ?r) > snd (snd ?b)"
    moreover have "snd (snd best) \<le> snd (snd ?b)" by (rule better_mono)
    ultimately show ?thesis by auto
  qed
qed

lemma find_longest_match_range:
  assumes "find_longest_match a b = (i, j, k)" and "k \<noteq> 0"
  shows "i < length a \<and> j < length b"
proof -
  let ?ps = "List.product [0..<length a] [0..<length b]"
  have r: "foldl (better a b) (0, 0, 0) ?ps = (i, j, k)"
    using assms(1) by (simp add: find_longest_match_def)
  from foldl_better_range [of a b "(0, 0, 0)" ?ps]
  have "(i, j) \<in> set ?ps" unfolding r using assms(2) by auto
  then show ?thesis by simp
qed

function matching_size :: "string \<Rightarrow> string \<Rightarrow> nat" where
  "matching_size a b =
     (case find_longest_match a b of
        (i, j, k) \<Rightarrow>
          if k = 0 then 0
          else matching_size (take i a) (take j b) + k +
               matching_size (drop (i + k) a) (drop (j + k) b))"
  by pat_completeness auto
termination
proof (relation "measure (\<lambda>(a, b). length a + length b)", goal_cases)
  case 1
  show ?case by simp
next
  case (2 a b i q j k)
  then have "find_longest_match a b = (i, j, k)" by simp
  from find_longest_match_range [OF this \<open>k \<noteq> 0\<close>] show ?case by simp
next
  case (3 a b i q j k)
  then have "find_longest_match a b = (i, j, k)" by simp
  from find_longest_match_range [OF this \<open>k \<noteq> 0\<close>] \<open>k \<noteq> 0\<close> show ?case by simp arith
qed

text \<open>The equation of \<open>matching_size\<close> is recursive without a guard: it is unfolded by hand.\<close>

declare matching_size.simps [simp del]

definition ratio :: "string \<Rightarrow> string \<Rightarrow> real" where
  "ratio a b =
     (if length a + length b = 0 then 1
      else 2 * real (matching_size a b) / real (length a + length b))"

subsection \<open>The score of the specification is 1 exactly on equal texts\<close>

lemma common_prefix_le:
  "common_prefix xs ys \<le> length xs \<and> common_prefix xs ys \<le> length ys"
  by (induction xs ys rule: common_prefix.induct) auto

lemma common_prefix_self: "common_prefix xs xs = length xs"
  by (induction xs) auto

lemma common_prefix_take:
  "take (common_prefix xs ys) xs = take (common_prefix xs ys) ys"
  by (induction xs ys rule: common_prefix.induct) auto

lemma foldl_better_block:
  assumes "snd (snd best) = 0 \<or>
           snd (snd best) = common_prefix (drop (fst best) a) (drop (fst (snd best)) b)"
  shows "snd (snd (foldl (better a b) best ps)) = 0 \<or>
         snd (snd (foldl (better a b) best ps)) =
           common_prefix (drop (fst (foldl (better a b) best ps)) a)
             (drop (fst (snd (foldl (better a b) best ps))) b)"
  using assms
proof (induction ps arbitrary: best)
  case Nil
  then show ?case by simp
next
  case (Cons p ps)
  have "snd (snd (better a b best p)) = 0 \<or>
        snd (snd (better a b best p)) =
          common_prefix (drop (fst (better a b best p)) a) (drop (fst (snd (better a b best p))) b)"
    using Cons.prems by (auto simp: better_def Let_def)
  from Cons.IH [OF this] show ?case by simp
qed

lemma find_longest_match_block:
  assumes "find_longest_match a b = (i, j, k)"
  shows "k = 0 \<or> k = common_prefix (drop i a) (drop j b)"
  using foldl_better_block [of "(0, 0, 0)" a b "List.product [0..<length a] [0..<length b]"] assms
  by (simp add: find_longest_match_def)

lemma find_longest_match_fits:
  assumes "find_longest_match a b = (i, j, k)"
  shows "i + k \<le> length a \<and> j + k \<le> length b"
proof (cases "k = 0")
  case True
  show ?thesis
  proof (cases "foldl (better a b) (0, 0, 0) (List.product [0..<length a] [0..<length b]) = (0, 0, 0)")
    case True
    then show ?thesis using assms by (simp add: find_longest_match_def)
  next
    case False
    then show ?thesis
      using foldl_better_range [of a b "(0, 0, 0)" "List.product [0..<length a] [0..<length b]"]
        assms True by (simp add: find_longest_match_def)
  qed
next
  case False
  then have k: "k = common_prefix (drop i a) (drop j b)"
    using find_longest_match_block [OF assms] by simp
  have "i < length a \<and> j < length b"
    using find_longest_match_range [OF assms False] .
  moreover have "k \<le> length a - i" "k \<le> length b - j"
    using common_prefix_le [of "drop i a" "drop j b"] k by simp_all
  ultimately show ?thesis by linarith
qed

lemma find_longest_match_equal:
  assumes "find_longest_match a b = (i, j, k)"
  shows "take k (drop i a) = take k (drop j b)"
proof (cases "k = 0")
  case True
  then show ?thesis by simp
next
  case False
  then have "k = common_prefix (drop i a) (drop j b)"
    using find_longest_match_block [OF assms] by simp
  then show ?thesis using common_prefix_take by simp
qed

lemma matching_size_le:
  "matching_size a b \<le> length a \<and> matching_size a b \<le> length b"
proof (induction a b rule: matching_size.induct)
  case (1 a b)
  obtain i j k where f: "find_longest_match a b = (i, j, k)"
    by (cases "find_longest_match a b") auto
  show ?case
  proof (cases "k = 0")
    case True
    then have "matching_size a b = 0"
      using matching_size.simps [of a b] f by simp
    then show ?thesis by simp
  next
    case False
    have fits: "i + k \<le> length a \<and> j + k \<le> length b"
      using find_longest_match_fits [OF f] .
    have l: "matching_size (take i a) (take j b) \<le> length (take i a) \<and>
             matching_size (take i a) (take j b) \<le> length (take j b)"
      using "1.IH"(1) [OF f [symmetric] refl False] .
    have r: "matching_size (drop (i + k) a) (drop (j + k) b) \<le> length (drop (i + k) a) \<and>
             matching_size (drop (i + k) a) (drop (j + k) b) \<le> length (drop (j + k) b)"
      using "1.IH"(2) [OF f [symmetric] refl False] .
    have eq: "matching_size a b =
        matching_size (take i a) (take j b) + k + matching_size (drop (i + k) a) (drop (j + k) b)"
      using matching_size.simps [of a b] f False by simp
    show ?thesis using l r fits unfolding eq by simp linarith
  qed
qed

lemma matching_size_full:
  "matching_size a b = length a \<Longrightarrow> length a = length b \<Longrightarrow> a = b"
proof (induction a b rule: matching_size.induct)
  case (1 a b)
  obtain i j k where f: "find_longest_match a b = (i, j, k)"
    by (cases "find_longest_match a b") auto
  show ?case
  proof (cases "k = 0")
    case True
    then have "matching_size a b = 0"
      using matching_size.simps [of a b] f by simp
    then show ?thesis using "1.prems" by simp
  next
    case False
    have fits: "i + k \<le> length a \<and> j + k \<le> length b"
      using find_longest_match_fits [OF f] .
    have eq: "matching_size a b =
        matching_size (take i a) (take j b) + k + matching_size (drop (i + k) a) (drop (j + k) b)"
      using matching_size.simps [of a b] f False by simp
    let ?l = "matching_size (take i a) (take j b)"
    let ?r = "matching_size (drop (i + k) a) (drop (j + k) b)"
    have l: "?l \<le> i" "?l \<le> j"
      using matching_size_le [of "take i a" "take j b"] fits by simp_all
    have r: "?r \<le> length a - (i + k)" "?r \<le> length b - (j + k)"
      using matching_size_le [of "drop (i + k) a" "drop (j + k) b"] by simp_all
    have total: "?l + k + ?r = length a" "?l + k + ?r = length b"
      using "1.prems" eq by simp_all
    have li: "?l = i" using l(1) r(1) total(1) fits by linarith
    have lj: "?l = j" using l(2) r(2) total(2) fits by linarith
    have ij: "i = j" using li lj by simp
    have "take i a = take j b"
      using "1.IH"(1) [OF f [symmetric] refl False] li ij fits by simp
    moreover have "drop (i + k) a = drop (j + k) b"
    proof -
      have "?r = length (drop (i + k) a)" using total(1) li fits by simp
      moreover have "length (drop (i + k) a) = length (drop (j + k) b)"
        using "1.prems"(2) ij by simp
      ultimately show ?thesis
        using "1.IH"(2) [OF f [symmetric] refl False] by simp
    qed
    moreover have "take k (drop i a) = take k (drop j b)"
      using find_longest_match_equal [OF f] .
    moreover have "a = take i a @ take k (drop i a) @ drop (i + k) a"
      by (metis add.commute append_take_drop_id drop_drop)
    moreover have "b = take j b @ take k (drop j b) @ drop (j + k) b"
      by (metis add.commute append_take_drop_id drop_drop)
    ultimately show ?thesis by metis
  qed
qed

lemma foldl_better_keep:
  assumes "\<forall>p \<in> set ps. common_prefix (drop (fst p) a) (drop (snd p) b) \<le> snd (snd best)"
  shows "foldl (better a b) best ps = best"
  using assms by (induction ps) (simp_all add: better_def Let_def)

lemma find_longest_match_self:
  assumes "a \<noteq> []"
  shows "find_longest_match a a = (0, 0, length a)"
proof -
  let ?n = "length a"
  define ns where "ns = [Suc 0..<?n]"
  have n: "[0..<?n] = 0 # ns"
    using assms by (simp add: upt_conv_Cons ns_def)
  have "List.product [0..<?n] [0..<?n] = (0, 0) # (map (Pair 0) ns @ List.product ns (0 # ns))"
    unfolding n by simp
  then have "find_longest_match a a =
      foldl (better a a) (better a a (0, 0, 0) (0, 0))
        (map (Pair 0) ns @ List.product ns (0 # ns))"
    by (simp add: find_longest_match_def)
  moreover have "better a a (0, 0, 0) (0, 0) = (0, 0, ?n)"
    using assms by (simp add: better_def common_prefix_self)
  moreover have "foldl (better a a) (0, 0, ?n) ps = (0, 0, ?n)" for ps
  proof (rule foldl_better_keep, rule ballI)
    fix p
    have "common_prefix (drop (fst p) a) (drop (snd p) a) \<le> length (drop (fst p) a)"
      using common_prefix_le by blast
    then show "common_prefix (drop (fst p) a) (drop (snd p) a) \<le> snd (snd (0, 0, ?n))"
      by simp
  qed
  ultimately show ?thesis by simp
qed

lemma matching_size_self: "matching_size a a = length a"
proof (cases "a = []")
  case True
  have "find_longest_match [] [] = (0, 0, 0)"
    by (simp add: find_longest_match_def)
  then show ?thesis using True matching_size.simps [of "[]" "[]"] by simp
next
  case False
  have e: "find_longest_match [] [] = (0, 0, 0)"
    by (simp add: find_longest_match_def)
  have "matching_size [] [] = 0"
    using matching_size.simps [of "[]" "[]"] by (simp add: e)
  then show ?thesis
    using matching_size.simps [of a a] find_longest_match_self [OF False] False by simp
qed

lemma ratio_self: "ratio a a = 1"
  by (simp add: ratio_def matching_size_self)

lemma ratio_less_one:
  assumes "a \<noteq> b"
  shows "ratio a b < 1"
proof -
  have pos: "0 < length a + length b" using assms by (cases a; cases b) auto
  have le: "matching_size a b \<le> length a" "matching_size a b \<le> length b"
    using matching_size_le [of a b] by simp_all
  have "2 * matching_size a b < length a + length b"
  proof (rule ccontr)
    assume "\<not> 2 * matching_size a b < length a + length b"
    then have "matching_size a b = length a" "length a = length b" using le by linarith+
    then have "a = b" by (rule matching_size_full)
    with assms show False by simp
  qed
  then have "2 * real (matching_size a b) < real (length a + length b)"
    by (metis of_nat_less_iff of_nat_mult of_nat_numeral)
  then show ?thesis using pos by (simp add: ratio_def)
qed

subsection \<open>Properties of the matching loop\<close>

lemma rename_cases:
  "rename nm =
     (if nm = Some ''Den Helder'' then Some ''De Kooy''
      else if nm = Some ''Eelde'' then Some ''Groningen'' else nm)"
  by (simp add: rename_def modify_names_def)

lemma index_loc:
  assumes "(i, st) \<in> set (index coords)"
  shows "loc coords i = Inr st \<and> st \<in> set coords"
proof -
  from assms obtain k where k: "k < length coords" "[1..int (length coords)] ! k = i" "coords ! k = st"
    by (auto simp: index_def in_set_zip)
  have "i = 1 + int k" using k(1,2) by (simp add: nth_upto)
  then show ?thesis using k(1,3) by (auto simp: loc_def)
qed

lemma best_match_result:
  assumes "\<forall>p \<in> set xs. name (snd p) \<noteq> None"
  shows "\<exists>m i. best_match score (Some x) xs (m0, i0) = Inr (m, i) \<and> m0 \<le> m \<and>
           (\<forall>p \<in> set xs. score x (the (name (snd p))) \<le> m) \<and>
           ((m, i) = (m0, i0) \<or>
            (m0 < m \<and> (\<exists>st. (i, st) \<in> set xs \<and> score x (the (name st)) = m)))"
  using assms
proof (induction xs arbitrary: m0 i0)
  case Nil
  show ?case by simp
next
  case (Cons p xs)
  obtain j st where p: "p = (j, st)" by (cases p)
  from Cons.prems p obtain y where y: "name st = Some y" by auto
  have rest: "\<forall>p \<in> set xs. name (snd p) \<noteq> None" using Cons.prems by simp
  show ?case
  proof (cases "score x y > m0")
    case True
    from Cons.IH [OF rest, of "score x y" j] obtain m i where
      r: "best_match score (Some x) xs (score x y, j) = Inr (m, i)" "score x y \<le> m"
         "\<forall>p \<in> set xs. score x (the (name (snd p))) \<le> m"
         "(m, i) = (score x y, j) \<or>
            (score x y < m \<and> (\<exists>st. (i, st) \<in> set xs \<and> score x (the (name st)) = m))"
      by blast
    have "best_match score (Some x) (p # xs) (m0, i0) = Inr (m, i)"
      using True r(1) by (simp add: p y similarity_def)
    moreover have "m0 < m" using True r(2) by simp
    moreover have "\<exists>st. (i, st) \<in> set (p # xs) \<and> score x (the (name st)) = m"
      using r(4) p y by auto
    moreover have "\<forall>q \<in> set (p # xs). score x (the (name (snd q))) \<le> m"
      using r(2,3) p y by simp
    ultimately show ?thesis by auto
  next
    case False
    from Cons.IH [OF rest, of m0 i0] obtain m i where
      r: "best_match score (Some x) xs (m0, i0) = Inr (m, i)" "m0 \<le> m"
         "\<forall>p \<in> set xs. score x (the (name (snd p))) \<le> m"
         "(m, i) = (m0, i0) \<or>
            (m0 < m \<and> (\<exists>st. (i, st) \<in> set xs \<and> score x (the (name st)) = m))"
      by blast
    have "best_match score (Some x) (p # xs) (m0, i0) = Inr (m, i)"
      using False r(1) by (simp add: p y similarity_def)
    moreover have "\<forall>q \<in> set (p # xs). score x (the (name (snd q))) \<le> m"
      using r(2,3) False p y by simp
    moreover have "(m, i) = (m0, i0) \<or>
        (m0 < m \<and> (\<exists>st. (i, st) \<in> set (p # xs) \<and> score x (the (name st)) = m))"
      using r(4) by auto
    ultimately show ?thesis using r(2) by auto
  qed
qed

lemma index_names:
  assumes "\<forall>st \<in> set coords. name st \<noteq> None"
  shows "\<forall>p \<in> set (index coords). name (snd p) \<noteq> None"
  using assms by (auto simp: index_def dest: set_zip_rightD)



lemma best_station_no_positive_score:
  assumes "\<forall>st \<in> set coords. name st \<noteq> None"
      and "\<forall>st \<in> set coords. score x (the (name st)) \<le> 0"
  shows "best_station score coords (Some x) = Inl KeyError"
proof -
  from best_match_result [OF index_names [OF assms(1)], of score x 0 "- 1"]
  obtain m i where
    r: "best_match score (Some x) (index coords) (0, - 1) = Inr (m, i)"
       "(m, i) = (0, - 1) \<or>
          (0 < m \<and> (\<exists>st. (i, st) \<in> set (index coords) \<and> score x (the (name st)) = m))"
    by blast
  have "(m, i) = (0, - 1)"
  proof (rule ccontr)
    assume "(m, i) \<noteq> (0, - 1)"
    with r(2) obtain st where st: "0 < m" "(i, st) \<in> set (index coords)" "score x (the (name st)) = m"
      by auto
    from index_loc [OF st(2)] have "st \<in> set coords" by simp
    with assms(2) st(1,3) show False by auto
  qed
  then show ?thesis using r(1) by (simp add: best_station_def loc_def)
qed

text \<open>
  Claim C10.  The renaming compares the whole name with each key by equality: a name
  that is neither key is left as it is, and is the name the scores are computed for; the
  two keys are replaced by their values.
\<close>

theorem rename_exact:
  "(nm \<noteq> Some ''Den Helder'' \<and> nm \<noteq> Some ''Eelde'' \<longrightarrow>
      rename nm = nm \<and> match_station score coords nm = best_station score coords nm) \<and>
   rename (Some ''Den Helder'') = Some ''De Kooy'' \<and>
   rename (Some ''Eelde'') = Some ''Groningen''"
  by (simp add: rename_cases match_station_def)

subsection \<open>Example matches\<close>

definition ex_stations :: "station list" where
  "ex_stations =
     [\<lparr>sid = Some ''260'', name = Some ''De Bilt'', type = Some ''AWS'',
        lat = 52 + 6 / 60, lon = 5 + 11 / 60, elevation = Some ''2''\<rparr>,
      \<lparr>sid = Some ''229'', name = Some ''Den Burg'', type = Some ''AWS'',
        lat = 53 + 0 / 60, lon = 4 + 45 / 60, elevation = Some ''0''\<rparr>,
      \<lparr>sid = Some ''235'', name = Some ''De Kooy'', type = Some ''AWS'',
        lat = 52 + 55 / 60, lon = 4 + 47 / 60, elevation = Some ''1''\<rparr>]"

lemma ex_ratios:
  "ratio ''De Kooy'' ''De Kooy'' = 1"
  "ratio ''De Kooy'' ''De Bilt'' = 3 / 7"
  "ratio ''De Kooy'' ''Den Burg'' = 2 / 5"
  "ratio ''Den Helder'' ''De Bilt'' = 8 / 17"
  "ratio ''Den Helder'' ''Den Burg'' = 5 / 9"
  "ratio ''Den Helder'' ''De Kooy'' = 6 / 17"
  "ratio ''Urk'' ''De Bilt'' = 0"
  "ratio ''Urk'' ''De Kooy'' = 0"
  by code_simp+

lemmas match_defs = match_station_def rename_cases best_station_def index_def upto.simps
  similarity_def loc_def


theorem rename_exact_witness:
  "rename (Some ''den helder'') = Some ''den helder'' \<and>
   rename (Some '' Den Helder'') = Some '' Den Helder'' \<and>
   rename (Some ''Den Helder Airport'') = Some ''Den Helder Airport'' \<and>
   match_station ratio ex_stations (Some ''den helder'') =
     best_station ratio ex_stations (Some ''den helder'')"
  using rename_exact [of "Some ''den helder''" ratio ex_stations]
    rename_exact [of "Some '' Den Helder''" ratio ex_stations]
    rename_exact [of "Some ''Den Helder Airport''" ratio ex_stations]
  by simp

text \<open>
  Claim C4 fails on the code: the scan starts from \<open>maxsim = 0\<close> and takes a station only
  on a strictly greater score, so when the name shares no character with any name of the
  catalog every score is 0, \<open>maxind\<close> keeps its start value -1, and \<open>coords.loc[-1]\<close> raises
  \<open>KeyError\<close>: the row is matched to no station.
\<close>

theorem no_common_character_raises:
  "match_station ratio ex_catalog (Some ''Urk'') = Inl KeyError"
  by (simp add: match_defs ex_catalog_def ex_ratios)

section \<open>Inverse distance weighting: \<open>idw\<close>\<close>

text \<open>
  A row of the measurement table as \<open>idw\<close> reads it: the point of the station,
  \<open>(longitude, latitude)\<close>, and the values of the numeric columns, by column name.
\<close>

record observation =
  coords :: "real \<times> real"
  column :: "string \<Rightarrow> pyfloat"

text \<open>The planar distance of two points, and \<open>distance\<close>: that of a point from each station.\<close>

definition point_distance :: "real \<times> real \<Rightarrow> real \<times> real \<Rightarrow> real" where
  "point_distance p q = sqrt ((fst p - fst q)\<^sup>2 + (snd p - snd q)\<^sup>2)"

definition distance :: "real \<times> real \<Rightarrow> observation list \<Rightarrow> real list" where
  "distance p data = map (\<lambda>r. point_distance p (coords r)) data"

text \<open>
  Arithmetic with the null marker: a weight times a value, the sum of two values, a value
  divided by a number.  NaN absorbs; in particular 0 times NaN is NaN.
\<close>

definition fmul :: "real \<Rightarrow> pyfloat \<Rightarrow> pyfloat" where
  "fmul w v = (case v of Num r \<Rightarrow> Num (w * r) | NaN \<Rightarrow> NaN)"

definition fadd :: "pyfloat \<Rightarrow> pyfloat \<Rightarrow> pyfloat" where
  "fadd u v = (case u of Num a \<Rightarrow> (case v of Num b \<Rightarrow> Num (a + b) | NaN \<Rightarrow> NaN) | NaN \<Rightarrow> NaN)"

definition fdiv :: "pyfloat \<Rightarrow> real \<Rightarrow> pyfloat" where
  "fdiv u d = (case u of Num a \<Rightarrow> Num (a / d) | NaN \<Rightarrow> NaN)"

text \<open>Python's \<open>sum\<close>: from 0, adding the items from the left.\<close>

definition py_sum :: "pyfloat list \<Rightarrow> pyfloat" where
  "py_sum vs = foldl fadd (Num 0) vs"

text \<open>
  \<open>idw(data, x, y, p, column)\<close>.  The weights are first the truth values of \<open>dist == 0\<close>, as
  numbers; when none is true they become \<open>1 / d ** p\<close>.  The products of the weights and the
  column are taken row by row.  On an empty table both sums are the integer 0 and the
  division raises \<open>ZeroDivisionError\<close>; on any other table the sum of the weights is
  positive (lemma \<open>idw_weights_positive\<close>).  The numbers are exact reals: the rounding of
  the sums and of the quotient, and the overflow or underflow of \<open>d ** p\<close> for extreme \<open>p\<close>
  or distances, are outside the model.
\<close>

definition idw_weights :: "observation list \<Rightarrow> real \<Rightarrow> real \<Rightarrow> real \<Rightarrow> real list" where
  "idw_weights data x y p =
     (let dist = distance (x, y) data;
          weights = map (\<lambda>d. if d = 0 then 1 else 0) dist
      in if sum_list weights = 0 then map (\<lambda>x. 1 / x powr p) dist else weights)"

definition idw :: "observation list \<Rightarrow> real \<Rightarrow> real \<Rightarrow> real \<Rightarrow> string \<Rightarrow> py_error + pyfloat" where
  "idw data x y p col =
     (let weights = idw_weights data x y p
      in if data = [] then Inl ZeroDivisionError
         else Inr (fdiv (py_sum (map2 fmul weights (map (\<lambda>r. column r col) data)))
                        (sum_list weights)))"

subsection \<open>The weighted average, in the words of the specification\<close>

text \<open>
  The observations used: those at the query point when there are any, else all.  Each
  used observation at the query point has weight 1, each other one \<open>1 / distance ^ power\<close>.
\<close>

definition used :: "observation list \<Rightarrow> real \<Rightarrow> real \<Rightarrow> observation list" where
  "used data x y =
     (if list_ex (\<lambda>r. coords r = (x, y)) data then filter (\<lambda>r. coords r = (x, y)) data
      else data)"

definition weight :: "real \<Rightarrow> real \<Rightarrow> real \<Rightarrow> observation \<Rightarrow> real" where
  "weight x y p r =
     (if coords r = (x, y) then 1 else 1 / point_distance (x, y) (coords r) powr p)"

fun num :: "pyfloat \<Rightarrow> real" where
  "num (Num r) = r"

definition weighted_average ::
  "observation list \<Rightarrow> real \<Rightarrow> real \<Rightarrow> real \<Rightarrow> string \<Rightarrow> real" where
  "weighted_average data x y p col =
     (\<Sum>r\<leftarrow>used data x y. weight x y p r * num (column r col)) /
     (\<Sum>r\<leftarrow>used data x y. weight x y p r)"

subsection \<open>Properties of \<open>idw\<close>\<close>

lemma point_distance_zero: "point_distance p q = 0 \<longleftrightarrow> q = p"
proof -
  have "point_distance p q = 0 \<longleftrightarrow> (fst p - fst q)\<^sup>2 + (snd p - snd q)\<^sup>2 = 0"
    by (simp add: point_distance_def)
  also have "\<dots> \<longleftrightarrow> fst p = fst q \<and> snd p = snd q"
    by (simp add: sum_power2_eq_zero_iff)
  also have "\<dots> \<longleftrightarrow> q = p"
    by (auto simp: prod_eq_iff)
  finally show ?thesis .
qed

lemma point_distance_nonneg: "0 \<le> point_distance p q"
  by (simp add: point_distance_def)

lemma exact_weights_sum:
  "sum_list (map (\<lambda>d. if d = 0 then 1 else (0::real)) ds) = 0 \<longleftrightarrow> 0 \<notin> set ds"
proof (induction ds)
  case Nil
  show ?case by simp
next
  case (Cons d ds)
  have "0 \<le> sum_list (map (\<lambda>d. if d = 0 then 1 else (0::real)) ds)"
    by (rule sum_list_nonneg) auto
  then have "1 + sum_list (map (\<lambda>d. if d = 0 then 1 else (0::real)) ds) \<noteq> 0"
    by linarith
  then show ?case using Cons.IH by auto
qed

lemma idw_weights_eq:
  "idw_weights data x y p =
     (if list_ex (\<lambda>r. coords r = (x, y)) data
      then map (\<lambda>r. if coords r = (x, y) then 1 else 0) data
      else map (weight x y p) data)"
proof -
  have zero: "0 \<in> set (distance (x, y) data) \<longleftrightarrow> list_ex (\<lambda>r. coords r = (x, y)) data"
    by (auto simp: distance_def point_distance_zero list_ex_iff)
  show ?thesis
  proof (cases "list_ex (\<lambda>r. coords r = (x, y)) data")
    case True
    then show ?thesis
      using zero by (simp add: idw_weights_def Let_def exact_weights_sum distance_def
          comp_def point_distance_zero)
  next
    case False
    then have "\<forall>r \<in> set data. coords r \<noteq> (x, y)" by (simp add: list_ex_iff)
    then have "map (\<lambda>r. 1 / point_distance (x, y) (coords r) powr p) data = map (weight x y p) data"
      by (simp add: weight_def)
    then show ?thesis
      using False zero by (simp add: idw_weights_def Let_def exact_weights_sum distance_def comp_def)
  qed
qed

lemma weight_positive: "0 < weight x y p r"
proof (cases "coords r = (x, y)")
  case True
  then show ?thesis by (simp add: weight_def)
next
  case False
  then have "point_distance (x, y) (coords r) \<noteq> 0" by (simp add: point_distance_zero)
  then have "0 < point_distance (x, y) (coords r)"
    using point_distance_nonneg [of "(x, y)" "coords r"] by simp
  then show ?thesis using False by (simp add: weight_def)
qed

lemma sum_list_positive:
  fixes f :: "'a \<Rightarrow> real"
  assumes "xs \<noteq> []" and "\<And>r. r \<in> set xs \<Longrightarrow> 0 < f r"
  shows "0 < (\<Sum>r\<leftarrow>xs. f r)"
  using assms
proof (induction xs)
  case Nil
  then show ?case by simp
next
  case (Cons a xs)
  have "0 \<le> (\<Sum>r\<leftarrow>xs. f r)"
    by (rule sum_list_nonneg) (use Cons.prems(2) in force)
  moreover have "0 < f a" using Cons.prems(2) by simp
  ultimately show ?case by simp
qed

lemma used_nonempty: "data \<noteq> [] \<Longrightarrow> used data x y \<noteq> []"
  by (auto simp: used_def list_ex_iff filter_empty_conv)

lemma used_subset: "set (used data x y) \<subseteq> set data"
  by (auto simp: used_def)

lemma sum_indicator:
  fixes f :: "'a \<Rightarrow> real"
  shows "(\<Sum>r\<leftarrow>xs. (if P r then 1 else 0) * f r) = (\<Sum>r\<leftarrow>filter P xs. f r)"
  by (induction xs) simp_all

lemma sum_indicator_one: "(\<Sum>r\<leftarrow>xs. if P r then 1 else (0::real)) = (\<Sum>r\<leftarrow>filter P xs. 1)"
  by (induction xs) simp_all

text \<open>The sums of the source over all rows are the sums of the specification over the used ones.\<close>

lemma weights_sum_used:
  "sum_list (idw_weights data x y p) = (\<Sum>r\<leftarrow>used data x y. weight x y p r)"
proof (cases "list_ex (\<lambda>r. coords r = (x, y)) data")
  case True
  have "(\<Sum>r\<leftarrow>filter (\<lambda>r. coords r = (x, y)) data. weight x y p r) =
        (\<Sum>r\<leftarrow>filter (\<lambda>r. coords r = (x, y)) data. 1)"
    by (rule arg_cong [where f = sum_list]) (simp add: weight_def)
  then show ?thesis
    using True by (simp add: idw_weights_eq used_def sum_indicator_one)
next
  case False
  then show ?thesis by (simp add: idw_weights_eq used_def)
qed

lemma products_sum_used:
  "(\<Sum>(w, r)\<leftarrow>zip (idw_weights data x y p) data. w * f r) =
   (\<Sum>r\<leftarrow>used data x y. weight x y p r * f r)"
proof -
  have zip_map: "(\<Sum>(w, r)\<leftarrow>zip (map g data) data. w * f r) = (\<Sum>r\<leftarrow>data. g r * f r)" for g
    by (induction data) simp_all
  show ?thesis
  proof (cases "list_ex (\<lambda>r. coords r = (x, y)) data")
    case True
    have "(\<Sum>r\<leftarrow>filter (\<lambda>r. coords r = (x, y)) data. weight x y p r * f r) =
          (\<Sum>r\<leftarrow>filter (\<lambda>r. coords r = (x, y)) data. f r)"
      by (rule arg_cong [where f = sum_list]) (simp add: weight_def)
    then show ?thesis
      using True by (simp add: idw_weights_eq used_def zip_map sum_indicator)
  next
    case False
    then show ?thesis by (simp add: idw_weights_eq used_def zip_map)
  qed
qed

lemma idw_weights_length: "length (idw_weights data x y p) = length data"
  by (simp add: idw_weights_eq)

lemma idw_weights_positive:
  assumes "data \<noteq> []"
  shows "0 < sum_list (idw_weights data x y p)"
  unfolding weights_sum_used
  by (rule sum_list_positive) (simp_all add: used_nonempty assms weight_positive)

text \<open>Python's sum of products: NaN as soon as one value is null, the real sum otherwise.\<close>

lemma fmul_simps: "fmul w (Num r) = Num (w * r)" "fmul w NaN = NaN"
  by (simp_all add: fmul_def)

lemma fadd_simps: "fadd (Num a) (Num b) = Num (a + b)" "fadd NaN v = NaN" "fadd u NaN = NaN"
  by (simp_all add: fadd_def split: pyfloat.splits)

lemma foldl_fadd_NaN: "foldl fadd NaN vs = NaN"
  by (induction vs) (simp_all add: fadd_simps)

lemma foldl_fadd_products:
  "length ws = length rs \<Longrightarrow>
   foldl fadd (Num a) (map2 fmul ws (map g rs)) =
     (if list_ex (\<lambda>r. g r = NaN) rs then NaN
      else Num (a + (\<Sum>(w, r)\<leftarrow>zip ws rs. w * num (g r))))"
proof (induction ws rs arbitrary: a rule: list_induct2)
  case Nil
  show ?case by simp
next
  case (Cons w ws r rs)
  show ?case
  proof (cases "g r")
    case NaN
    then show ?thesis by (simp add: fmul_simps fadd_simps foldl_fadd_NaN)
  next
    case (Num v)
    then show ?thesis using Cons.IH [of "a + w * v"]
      by (simp add: fmul_simps fadd_simps add.assoc)
  qed
qed

lemma idw_eq:
  "idw data x y p col =
     (if data = [] then Inl ZeroDivisionError
      else if list_ex (\<lambda>r. column r col = NaN) data then Inr NaN
      else Inr (Num (weighted_average data x y p col)))"
proof -
  have "py_sum (map2 fmul (idw_weights data x y p) (map (\<lambda>r. column r col) data)) =
      (if list_ex (\<lambda>r. column r col = NaN) data then NaN
       else Num (\<Sum>r\<leftarrow>used data x y. weight x y p r * num (column r col)))"
    unfolding py_sum_def
    by (simp add: foldl_fadd_products [OF idw_weights_length] products_sum_used)
  then show ?thesis
    by (simp add: idw_def Let_def fdiv_def weighted_average_def weights_sum_used)
qed

lemma filter_single:
  assumes "i < length xs" and "P (xs ! i)"
      and "\<forall>j < length xs. j \<noteq> i \<longrightarrow> \<not> P (xs ! j)"
  shows "filter P xs = [xs ! i]"
proof -
  have split: "xs = take i xs @ xs ! i # drop (Suc i) xs"
    using assms(1) by (rule id_take_nth_drop)
  have "\<forall>z \<in> set (take i xs). \<not> P z"
  proof
    fix z assume "z \<in> set (take i xs)"
    then obtain j where "j < i" "z = xs ! j"
      using assms(1) by (auto simp: in_set_conv_nth)
    then show "\<not> P z" using assms(1,3) by auto
  qed
  then have before: "filter P (take i xs) = []" by (simp add: filter_empty_conv)
  have "\<forall>z \<in> set (drop (Suc i) xs). \<not> P z"
  proof
    fix z assume "z \<in> set (drop (Suc i) xs)"
    then obtain j where "j < length xs - Suc i" "z = xs ! (Suc i + j)"
      using assms(1) by (auto simp: in_set_conv_nth)
    then show "\<not> P z" using assms(3) by auto
  qed
  then have after: "filter P (drop (Suc i) xs) = []" by (simp add: filter_empty_conv)
  have "filter P xs = filter P (take i xs @ xs ! i # drop (Suc i) xs)"
    using split by simp
  also have "\<dots> = [xs ! i]"
    using before after assms(2) by simp
  finally show ?thesis .
qed

text \<open>
  Claim C1, as the code has it.  When the query point is the point of exactly one
  observation, and no other observation has a null in the column, \<open>idw\<close> returns the value
  that observation has in the column, whatever \<open>p\<close> is.  (The products of the weights and
  the column are summed over all rows, and 0 times a null is null: a null of any other
  row makes the result null.)
\<close>

theorem idw_at_station:
  assumes "i < length data" and "coords (data ! i) = (x, y)"
      and "\<forall>j < length data. j \<noteq> i \<longrightarrow>
             coords (data ! j) \<noteq> (x, y) \<and> column (data ! j) col \<noteq> NaN"
  shows "idw data x y p col = Inr (column (data ! i) col)"
proof -
  have ne: "data \<noteq> []" using assms(1) by auto
  have mem: "data ! i \<in> set data" using assms(1) by simp
  show ?thesis
  proof (cases "column (data ! i) col")
    case NaN
    then have "list_ex (\<lambda>r. column r col = NaN) data"
      using mem by (auto simp: list_ex_iff)
    then show ?thesis using ne NaN by (simp add: idw_eq)
  next
    case (Num v)
    have "\<not> list_ex (\<lambda>r. column r col = NaN) data"
    proof
      assume "list_ex (\<lambda>r. column r col = NaN) data"
      then obtain j where j: "j < length data" "column (data ! j) col = NaN"
        by (auto simp: list_ex_iff in_set_conv_nth)
      then show False using assms(3) Num by (cases "j = i") auto
    qed
    moreover have "list_ex (\<lambda>r. coords r = (x, y)) data"
      using mem assms(2) by (auto simp: list_ex_iff)
    moreover have "filter (\<lambda>r. coords r = (x, y)) data = [data ! i]"
      using assms by (intro filter_single) auto
    ultimately show ?thesis
      using ne Num assms(2)
      by (simp add: idw_eq weighted_average_def used_def weight_def)
  qed
qed

text \<open>
  Claim C3, as the code has it.  On an empty table \<open>idw\<close> raises \<open>ZeroDivisionError\<close>.  On
  any other table the result is null as soon as one observation, used or not, has a null
  in the column: nulls are not left out of the sums, and are not read as zero.  When no
  observation has a null, the result is the number
  \<open>sum(weight * value) / sum(weight)\<close> over the used observations.
\<close>

theorem idw_weighted_average:
  "idw data x y p col =
     (if data = [] then Inl ZeroDivisionError
      else if list_ex (\<lambda>r. column r col = NaN) data then Inr NaN
      else Inr (Num ((\<Sum>r\<leftarrow>used data x y. weight x y p r * num (column r col)) /
                     (\<Sum>r\<leftarrow>used data x y. weight x y p r))))"
  using idw_eq [of data x y p col] by (simp add: weighted_average_def)



subsection \<open>Example tables\<close>

text \<open>
  Two stations at distance 5 from the origin, with temperatures 8 and 12; and the two
  stations of the scenario of the specification, A at (52.00, 5.00) and B at (52.10, 5.20)
  with temperature 10, once with a temperature for A and once with a null.
\<close>

definition ex_pair :: "observation list" where
  "ex_pair =
     [\<lparr>coords = (3, 4), column = (\<lambda>c. if c = ''temp'' then Num 8 else NaN)\<rparr>,
      \<lparr>coords = (4, 3), column = (\<lambda>c. if c = ''temp'' then Num 12 else NaN)\<rparr>]"

definition ex_full :: "observation list" where
  "ex_full =
     [\<lparr>coords = (5, 52), column = (\<lambda>c. if c = ''temp'' then Num 7 else NaN)\<rparr>,
      \<lparr>coords = (26 / 5, 521 / 10), column = (\<lambda>c. if c = ''temp'' then Num 10 else NaN)\<rparr>]"

definition ex_null :: "observation list" where
  "ex_null =
     [\<lparr>coords = (5, 52), column = (\<lambda>c. NaN)\<rparr>,
      \<lparr>coords = (26 / 5, 521 / 10), column = (\<lambda>c. if c = ''temp'' then Num 10 else NaN)\<rparr>]"

lemma sqrt_25: "sqrt 25 = 5"
proof -
  have "sqrt (5\<^sup>2) = 5" by (rule real_sqrt_unique) simp_all
  then show ?thesis by simp
qed

theorem idw_at_station_witness:
  "coords (ex_full ! 1) = (26 / 5, 521 / 10) \<and> column (ex_full ! 1) ''temp'' = Num 10 \<and>
   idw ex_full (26 / 5) (521 / 10) 2 ''temp'' = Inr (Num 10) \<and>
   idw ex_null 5 52 (9 / 2) ''temp'' = Inr NaN \<and> column (ex_null ! 0) ''temp'' = NaN"
proof -
  have h: "\<forall>j < length ex_full. j \<noteq> 1 \<longrightarrow>
      coords (ex_full ! j) \<noteq> (26 / 5, 521 / 10) \<and> column (ex_full ! j) ''temp'' \<noteq> NaN"
    by (simp add: ex_full_def less_Suc_eq)
  have h': "\<forall>j < length ex_null. j \<noteq> 0 \<longrightarrow>
      coords (ex_null ! j) \<noteq> (5, 52) \<and> column (ex_null ! j) ''temp'' \<noteq> NaN"
    by (simp add: ex_null_def less_Suc_eq)
  have "idw ex_full (26 / 5) (521 / 10) 2 ''temp'' = Inr (column (ex_full ! 1) ''temp'')"
    by (rule idw_at_station [OF _ _ h]) (simp_all add: ex_full_def)
  moreover have "idw ex_null 5 52 (9 / 2) ''temp'' = Inr (column (ex_null ! 0) ''temp'')"
    by (rule idw_at_station [OF _ _ h']) (simp_all add: ex_null_def)
  ultimately show ?thesis by (simp add: ex_full_def ex_null_def)
qed

text \<open>
  Claim C1 as stated fails: at the point of station B, the only station there, the
  result is null and not B's temperature 10, because station A has a null.
\<close>

theorem idw_at_station_counterexample:
  "coords (ex_null ! 1) = (26 / 5, 521 / 10) \<and> coords (ex_null ! 0) = (5, 52) \<and>
   column (ex_null ! 1) ''temp'' = Num 10 \<and>
   idw ex_null (26 / 5) (521 / 10) 2 ''temp'' = Inr NaN"
  by (simp add: idw_eq ex_null_def)

theorem idw_weighted_average_witness:
  "idw ex_pair 0 0 1 ''temp'' = Inr (Num 10) \<and>
   idw ex_pair 3 4 1 ''temp'' = Inr (Num 8) \<and>
   idw ex_null 0 0 1 ''temp'' = Inr NaN \<and>
   idw [] 0 0 1 ''temp'' = Inl ZeroDivisionError"
  using idw_weighted_average [of ex_pair 0 0 1 "''temp''"]
    idw_weighted_average [of ex_pair 3 4 1 "''temp''"]
    idw_weighted_average [of ex_null 0 0 1 "''temp''"]
    idw_weighted_average [of "[]" 0 0 1 "''temp''"]
  by (simp add: ex_pair_def ex_null_def used_def weight_def point_distance_def sqrt_25)

text \<open>
  Claim C3 as stated fails: away from both stations, with B's temperature 10 the only
  value that is not null, the result is null, where the claim has the average of the
  values that are not null, 10.
\<close>

theorem idw_weighted_average_counterexample:
  "column (ex_null ! 1) ''temp'' = Num 10 \<and> used ex_null 0 0 = ex_null \<and>
   idw ex_null 0 0 2 ''temp'' = Inr NaN"
  by (simp add: idw_eq ex_null_def used_def)



section \<open>The sampling grid of \<open>contour\<close>\<close>

text \<open>
  \<open>numpy.linspace(start, stop, num)\<close>, a function of the numpy library: \<open>num\<close> samples, the
  first \<open>num - 1\<close> at \<open>start + i * step\<close> with \<open>step = (stop - start) / (num - 1)\<close>, the
  last one \<open>stop\<close> itself; one sample is \<open>start\<close> alone.
\<close>

definition linspace :: "real \<Rightarrow> real \<Rightarrow> nat \<Rightarrow> real list" where
  "linspace start stop n =
     (if n = 0 then []
      else if n = 1 then [start]
      else (let step = (stop - start) / real (n - 1)
            in map (\<lambda>i. start + real i * step) [0..<n - 1] @ [stop]))"

text \<open>
  Lines 218 and 219: the grid coordinates, 100 samples over the bounds of the map.  The
  bounds \<open>(minx, maxx, miny, maxy)\<close> come from the shape file, which is outside the model.
\<close>

definition contour_x :: "real \<times> real \<times> real \<times> real \<Rightarrow> real list" where
  "contour_x bounds = (case bounds of (minx, maxx, miny, maxy) \<Rightarrow> linspace minx maxx 100)"

definition contour_y :: "real \<times> real \<times> real \<times> real \<Rightarrow> real list" where
  "contour_y bounds = (case bounds of (minx, maxx, miny, maxy) \<Rightarrow> linspace miny maxy 100)"

text \<open>The results of a run of calls, in order; the first exception ends the run.\<close>

fun collect :: "(py_error + 'a) list \<Rightarrow> py_error + 'a list" where
  "collect [] = Inr []"
| "collect (c # cs) =
     (case c of
        Inl e \<Rightarrow> Inl e
      | Inr v \<Rightarrow> (case collect cs of Inl e \<Rightarrow> Inl e | Inr vs \<Rightarrow> Inr (v # vs)))"

text \<open>
  Lines 221 to 224: the matrix, filled row by row, \<open>i\<close> over \<open>y\<close> outside and \<open>j\<close> over \<open>x\<close>
  inside, with \<open>z[i][j] = impute_f(data, x[j], y[i], column)\<close>.
\<close>

definition contour_z ::
  "(observation list \<Rightarrow> real \<Rightarrow> real \<Rightarrow> string \<Rightarrow> py_error + pyfloat) \<Rightarrow> observation list \<Rightarrow>
     real list \<Rightarrow> real list \<Rightarrow> string \<Rightarrow> py_error + pyfloat list list" where
  "contour_z impute_f data x y col =
     collect (map (\<lambda>i. collect (map (\<lambda>j. impute_f data (x ! j) (y ! i) col) [0..<length x]))
       [0..<length y])"

text \<open>
  The imputation function of \<open>contour\<close> when it is \<open>idw\<close>, as it is by default: \<open>idw\<close> with
  the parameter \<open>p\<close> supplied.
\<close>

definition impute_idw ::
  "real \<Rightarrow> observation list \<Rightarrow> real \<Rightarrow> real \<Rightarrow> string \<Rightarrow> py_error + pyfloat" where
  "impute_idw p data x y col = idw data x y p col"

text \<open>
  The part of \<open>contour\<close> that computes \<open>x\<close>, \<open>y\<close> and \<open>z\<close>; the drawing is outside the model.
  The table is the one \<open>map(label=lbl, timestamp=True)\<close> returns (line 212).  Of \<open>map\<close> only
  what decides whether the grid is reached is modelled: on an empty table the read of the
  timestamp of the first row, \<open>data.t.iloc[0]\<close> (line 176), raises \<open>IndexError\<close>, so lines 218
  to 224 run on a table that is not empty.
\<close>

definition contour_grid ::
  "(observation list \<Rightarrow> real \<Rightarrow> real \<Rightarrow> string \<Rightarrow> py_error + pyfloat) \<Rightarrow> observation list \<Rightarrow>
     real \<times> real \<times> real \<times> real \<Rightarrow> string \<Rightarrow>
     py_error + (real list \<times> real list \<times> pyfloat list list)" where
  "contour_grid impute_f data bounds col =
     (if data = [] then Inl IndexError
      else
        (let x = contour_x bounds; y = contour_y bounds
         in case contour_z impute_f data x y col of
              Inl e \<Rightarrow> Inl e
            | Inr z \<Rightarrow> Inr (x, y, z)))"

subsection \<open>Properties of the grid\<close>

lemma linspace_length: "length (linspace start stop n) = n"
  by (simp add: linspace_def Let_def)

lemma linspace_nth:
  assumes "2 \<le> n" and "k < n"
  shows "linspace start stop n ! k = start + real k * ((stop - start) / real (n - 1))"
proof (cases "k < n - 1")
  case True
  then show ?thesis
    using assms by (simp add: linspace_def Let_def nth_append)
next
  case False
  then have k: "k = n - 1" using assms by simp
  have "start + real (n - 1) * ((stop - start) / real (n - 1)) = stop"
    using assms(1) by simp
  then show ?thesis
    using assms(1) k by (simp add: linspace_def Let_def nth_append)
qed

lemma linspace_ends:
  assumes "2 \<le> n"
  shows "linspace start stop n ! 0 = start" and "linspace start stop n ! (n - 1) = stop"
  using assms by (simp_all add: linspace_def Let_def nth_append)

lemma collect_Inr:
  "collect (map f xs) = Inr ys \<longleftrightarrow>
     length ys = length xs \<and> (\<forall>k < length xs. f (xs ! k) = Inr (ys ! k))"
proof (induction xs arbitrary: ys)
  case Nil
  show ?case by auto
next
  case (Cons a xs)
  show ?case
  proof (cases "f a")
    case (Inl e)
    then show ?thesis by (auto intro: exI [of _ 0])
  next
    case (Inr v)
    show ?thesis
    proof (cases "collect (map f xs)")
      case (Inl e)
      have "\<not> (length (tl ys) = length xs \<and> (\<forall>k < length xs. f (xs ! k) = Inr (tl ys ! k)))"
        using Cons.IH [of "tl ys"] Inl by simp
      then have "\<not> (length ys = length (a # xs) \<and>
          (\<forall>k < length (a # xs). f ((a # xs) ! k) = Inr (ys ! k)))"
        by (cases ys) (auto dest: spec [of _ "Suc _"])
      then show ?thesis using Inl Inr by simp
    next
      case vs: (Inr vs)
      have ih: "length vs = length xs" "\<forall>k < length xs. f (xs ! k) = Inr (vs ! k)"
        using Cons.IH [of vs] vs by simp_all
      show ?thesis
      proof
        assume "collect (map f (a # xs)) = Inr ys"
        then have ys: "ys = v # vs" using Inr vs by simp
        show "length ys = length (a # xs) \<and>
            (\<forall>k < length (a # xs). f ((a # xs) ! k) = Inr (ys ! k))"
          using ih Inr unfolding ys by (auto simp: nth_Cons split: nat.splits)
      next
        assume r: "length ys = length (a # xs) \<and>
            (\<forall>k < length (a # xs). f ((a # xs) ! k) = Inr (ys ! k))"
        then obtain u us where ys: "ys = u # us" by (cases ys) auto
        have "u = v" using r Inr unfolding ys by (auto dest: spec [of _ 0])
        moreover have "length us = length xs \<and> (\<forall>k < length xs. f (xs ! k) = Inr (us ! k))"
          using r unfolding ys by (auto dest: spec [of _ "Suc _"])
        then have "collect (map f xs) = Inr us" using Cons.IH [of us] by simp
        ultimately show "collect (map f (a # xs)) = Inr ys"
          using Inr ys by simp
      qed
    qed
  qed
qed

lemma collect_total:
  assumes "\<forall>a \<in> set xs. \<exists>v. f a = Inr v"
  shows "\<exists>ys. collect (map f xs) = Inr ys"
  using assms
proof (induction xs)
  case Nil
  show ?case by simp
next
  case (Cons a xs)
  then obtain v ys where "f a = Inr v" "collect (map f xs) = Inr ys" by auto
  then show ?case by simp
qed

lemma contour_z_Inr:
  assumes "contour_z impute_f data x y col = Inr z"
  shows "length z = length y"
    and "i < length y \<Longrightarrow> length (z ! i) = length x"
    and "i < length y \<Longrightarrow> j < length x \<Longrightarrow> impute_f data (x ! j) (y ! i) col = Inr (z ! i ! j)"
proof -
  let ?row = "\<lambda>i. collect (map (\<lambda>j. impute_f data (x ! j) (y ! i) col) [0..<length x])"
  have z: "length z = length [0..<length y]"
    "\<forall>k < length [0..<length y]. ?row ([0..<length y] ! k) = Inr (z ! k)"
    using assms unfolding contour_z_def collect_Inr by simp_all
  show "length z = length y" using z(1) by simp
  {
    assume i: "i < length y"
    then have "?row i = Inr (z ! i)" using z(2) by simp
    then have row: "length (z ! i) = length [0..<length x]"
      "\<forall>k < length [0..<length x].
         impute_f data (x ! ([0..<length x] ! k)) (y ! i) col = Inr (z ! i ! k)"
      unfolding collect_Inr by simp_all
    show "length (z ! i) = length x" using row(1) by simp
    show "j < length x \<Longrightarrow> impute_f data (x ! j) (y ! i) col = Inr (z ! i ! j)"
      using row(2) by simp
  }
qed

lemma contour_z_total:
  assumes "\<And>u v. \<exists>w. impute_f data u v col = Inr w"
  shows "\<exists>z. contour_z impute_f data x y col = Inr z"
  unfolding contour_z_def
  by (intro collect_total ballI) (use assms in blast)

lemma idw_returns:
  assumes "data \<noteq> []"
  shows "\<exists>w. idw data x y p col = Inr w"
  using assms by (simp add: idw_eq)

text \<open>
  Claim C5, as the code has it.  The resolution is not a parameter: \<open>contour\<close> always
  takes 100 samples on each axis.  For every bounding box and every table that is not
  empty, it builds 100 evenly spaced x-coordinates and 100 evenly spaced y-coordinates
  that begin and end at the ends of the box, and a matrix of 100 rows of 100 entries
  with \<open>z[i][j]\<close> the result of \<open>idw\<close> at \<open>(x[j], y[i])\<close>.
\<close>

theorem contour_grid_matrix:
  assumes "data \<noteq> []"
  shows "\<exists>x y z. contour_grid (impute_idw p) data (minx, maxx, miny, maxy) col = Inr (x, y, z) \<and>
           length x = 100 \<and> length y = 100 \<and> length z = 100 \<and>
           x ! 0 = minx \<and> x ! 99 = maxx \<and> y ! 0 = miny \<and> y ! 99 = maxy \<and>
           (\<forall>j < 100. x ! j = minx + real j * ((maxx - minx) / 99)) \<and>
           (\<forall>i < 100. y ! i = miny + real i * ((maxy - miny) / 99)) \<and>
           (\<forall>i < 100. length (z ! i) = 100 \<and>
              (\<forall>j < 100. idw data (x ! j) (y ! i) p col = Inr (z ! i ! j)))"
proof -
  let ?x = "contour_x (minx, maxx, miny, maxy)"
  let ?y = "contour_y (minx, maxx, miny, maxy)"
  have lx: "length ?x = 100" and ly: "length ?y = 100"
    by (simp_all add: contour_x_def contour_y_def linspace_length)
  have "\<And>u v. \<exists>w. impute_idw p data u v col = Inr w"
    using idw_returns [OF assms] by (simp add: impute_idw_def)
  then obtain z where z: "contour_z (impute_idw p) data ?x ?y col = Inr z"
    using contour_z_total [of "impute_idw p" data col ?x ?y] by blast
  have grid: "contour_grid (impute_idw p) data (minx, maxx, miny, maxy) col = Inr (?x, ?y, z)"
    using z assms by (simp add: contour_grid_def Let_def)
  have lz: "length z = 100"
    using contour_z_Inr(1) [OF z] ly by simp
  have rows: "\<forall>i < 100. length (z ! i) = 100 \<and>
      (\<forall>j < 100. idw data (?x ! j) (?y ! i) p col = Inr (z ! i ! j))"
  proof (intro allI impI conjI)
    fix i :: nat assume i: "i < 100"
    then show "length (z ! i) = 100"
      using contour_z_Inr(2) [OF z, of i] lx ly by simp
    fix j :: nat assume j: "j < 100"
    have "impute_idw p data (?x ! j) (?y ! i) col = Inr (z ! i ! j)"
      using contour_z_Inr(3) [OF z, of i j] i j lx ly by simp
    then show "idw data (?x ! j) (?y ! i) p col = Inr (z ! i ! j)"
      by (simp add: impute_idw_def)
  qed
  have xs: "\<forall>j < 100. ?x ! j = minx + real j * ((maxx - minx) / 99)"
    using linspace_nth [of 100 _ minx maxx] by (simp add: contour_x_def)
  have ys: "\<forall>i < 100. ?y ! i = miny + real i * ((maxy - miny) / 99)"
    using linspace_nth [of 100 _ miny maxy] by (simp add: contour_y_def)
  have ends: "?x ! 0 = minx" "?x ! 99 = maxx" "?y ! 0 = miny" "?y ! 99 = maxy"
    using linspace_ends [of 100 minx maxx] linspace_ends [of 100 miny maxy]
    by (simp_all add: contour_x_def contour_y_def)
  show ?thesis
    using grid lx ly lz ends xs ys rows by blast
qed

theorem contour_grid_matrix_witness:
  "\<exists>x y z. contour_grid (impute_idw 1) ex_pair (0, 99, 0, 99) ''temp'' = Inr (x, y, z) \<and>
     length x = 100 \<and> length y = 100 \<and> length z = 100 \<and> length (z ! 4) = 100 \<and>
     x ! 0 = 0 \<and> x ! 99 = 99 \<and> x ! 3 = 3 \<and> y ! 4 = 4 \<and> z ! 4 ! 3 = Num 8"
proof -
  have ne: "ex_pair \<noteq> []" by (simp add: ex_pair_def)
  from contour_grid_matrix [OF ne, of 1 0 99 0 99 "''temp''"]
  obtain x y z where g: "contour_grid (impute_idw 1) ex_pair (0, 99, 0, 99) ''temp'' = Inr (x, y, z)"
    and l: "length x = 100" "length y = 100" "length z = 100"
    and e: "x ! 0 = 0" "x ! 99 = 99"
    and xs: "\<forall>j < 100. x ! j = 0 + real j * ((99 - 0) / 99)"
    and ys: "\<forall>i < 100. y ! i = 0 + real i * ((99 - 0) / 99)"
    and rows: "\<forall>i < 100. length (z ! i) = 100 \<and>
      (\<forall>j < 100. idw ex_pair (x ! j) (y ! i) 1 ''temp'' = Inr (z ! i ! j))"
    by blast
  have x3: "x ! 3 = 3" using xs by simp
  have y4: "y ! 4 = 4" using ys by simp
  have "idw ex_pair (x ! 3) (y ! 4) 1 ''temp'' = Inr (z ! 4 ! 3)" "length (z ! 4) = 100"
    using rows by simp_all
  moreover have "idw ex_pair 3 4 1 ''temp'' = Inr (Num 8)"
    by (simp add: idw_eq ex_pair_def weighted_average_def used_def weight_def)
  ultimately have "z ! 4 ! 3 = Num 8" "length (z ! 4) = 100"
    by (simp_all add: x3 y4)
  then show ?thesis using g l e x3 y4 by blast
qed

text \<open>
  Claim C5 as stated fails for every resolution but 100: on the box from 0 to 1, where a
  resolution of 2 would give the coordinates 0 and 1, the grid has 100 coordinates on
  each axis.
\<close>

theorem contour_grid_counterexample:
  "length (contour_x (0, 1, 0, 1)) = 100 \<and> length (contour_y (0, 1, 0, 1)) = 100 \<and>
   contour_x (0, 1, 0, 1) \<noteq> linspace 0 1 2"
proof -
  have "length (contour_x (0, 1, 0, 1)) = 100" "length (contour_y (0, 1, 0, 1)) = 100"
    by (simp_all add: contour_x_def contour_y_def linspace_length)
  moreover have "length (linspace 0 1 2) = 2" by (rule linspace_length)
  ultimately show ?thesis by auto
qed

end
